theory Spec2Isabelle
  imports Main "HOL-Library.Word" "HOL-Library.AList" "HOL-Library.Signed_Division"
begin

unbundle bit_operations_syntax

section \<open>Addresses, as the Go standard library has them\<close>

text \<open>
  A \<^verbatim>\<open>net.IP\<close> and a \<^verbatim>\<open>net.HardwareAddr\<close> are byte slices. The nil slice is the
  empty list: none of the code below can build an empty slice that is not nil, except where
  an option value is read from a packet, and there the absence is an \<open>option\<close>.
  \<^verbatim>\<open>net.ParseIP\<close> returns nil or a slice of 16 bytes; for a dotted quad it is \<open>IPv4 a b c d\<close>.
  Instants and durations are integers (nanoseconds).
\<close>

type_synonym byte = "8 word"
type_synonym IP = "byte list"
type_synonym IPMask = "byte list"
type_synonym HardwareAddr = "byte list"
type_synonym Time = int
type_synonym Duration = int

definition v4InV6Prefix :: "byte list" where
  "v4InV6Prefix = [0, 0, 0, 0, 0, 0, 0, 0, 0, 0, 0xff, 0xff]"

definition IPv4 :: "byte \<Rightarrow> byte \<Rightarrow> byte \<Rightarrow> byte \<Rightarrow> IP" where
  "IPv4 a b c d = v4InV6Prefix @ [a, b, c, d]"

definition isZeros :: "byte list \<Rightarrow> bool" where
  "isZeros p = list_all (\<lambda>b. b = 0) p"

text \<open>\<^verbatim>\<open>ip.To4()\<close>: the 4-byte form of an IPv4 address, nil for anything else.\<close>

definition To4 :: "IP \<Rightarrow> IP" where
  "To4 ip =
     (if length ip = 4 then ip
      else if length ip = 16 \<and> isZeros (take 10 ip) \<and> ip ! 10 = 0xff \<and> ip ! 11 = 0xff
      then drop 12 ip
      else [])"

text \<open>\<^verbatim>\<open>ip.Equal(x)\<close>: the 4-byte and the 16-byte form of one IPv4 address are equal.\<close>

definition Equal :: "IP \<Rightarrow> IP \<Rightarrow> bool" where
  "Equal ip x =
     (if length ip = length x then ip = x
      else if length ip = 4 \<and> length x = 16 then take 12 x = v4InV6Prefix \<and> ip = drop 12 x
      else if length ip = 16 \<and> length x = 4 then take 12 ip = v4InV6Prefix \<and> drop 12 ip = x
      else False)"

text \<open>\<^verbatim>\<open>bytes.Compare\<close>: lexicographic, a nil argument is the empty slice.\<close>

fun bytes_Compare :: "byte list \<Rightarrow> byte list \<Rightarrow> int" where
  "bytes_Compare [] [] = 0"
| "bytes_Compare [] (y # ys) = - 1"
| "bytes_Compare (x # xs) [] = 1"
| "bytes_Compare (x # xs) (y # ys) =
     (if x < y then - 1 else if y < x then 1 else bytes_Compare xs ys)"

definition After :: "Time \<Rightarrow> Time \<Rightarrow> bool" where
  "After t u = (u < t)"

definition Add :: "Time \<Rightarrow> Duration \<Rightarrow> Time" where
  "Add t d = t + d"

section \<open>The cooperative server (main.go)\<close>

subsection \<open>Data\<close>

record Lease =
  IP :: IP
  MAC :: HardwareAddr
  ExpiryTime :: Time
  Hostname :: string

text \<open>
  The lease map is keyed by \<^verbatim>\<open>pkt.ClientHWAddr.String()\<close>. That rendering is injective, so
  the key of the model is the hardware address itself. The map is an association list, since
  \<open>isIPAvailable\<close> ranges over all its entries; its result does not depend on their order.
  The mutex makes each handled message atomic, so a handler is a function from the state
  before to the state after. \<^verbatim>\<open>time.Now()\<close> is one instant \<open>now\<close> per handled message.
\<close>

record DHCPServer =
  serverIP :: IP
  subnetMask :: IPMask
  routerIP :: IP
  dnsServerIPs :: "IP list"
  ipPool :: "IP list"
  leaseDuration :: Duration
  leases :: "(HardwareAddr \<times> Lease) list"

datatype MessageType =
    MessageTypeDiscover | MessageTypeOffer | MessageTypeRequest | MessageTypeDecline
  | MessageTypeAck | MessageTypeNak | MessageTypeRelease | MessageTypeInform
  | MessageTypeNone

text \<open>The fields of a received packet that a handler can read.\<close>

record DHCPv4 =
  ClientHWAddr :: HardwareAddr
  MessageType :: MessageType
  RequestedIPAddress :: IP
  ServerIdentifier :: IP
  HostName :: string

text \<open>
  What a handler hands to the connection: the reply built by \<^verbatim>\<open>NewReplyFromRequest\<close>. When
  the library fails to build or to send it, the Go code logs the error and goes on as if it
  had been sent; the model stops at the reply.
\<close>

record Reply =
  replyType :: MessageType
  yourIP :: "IP option"
  replyServerIP :: IP
  optSubnetMask :: "IPMask option"
  optRouter :: "IP option"
  optDNS :: "IP list option"
  optLeaseTime :: "Duration option"
  optMessage :: "string option"

subsection \<open>Building the pool\<close>

text \<open>The loop of \<open>nextIP\<close>: \<open>nextIP_loop (Suc j) next\<close> is the iteration at index \<open>j\<close>.\<close>

fun nextIP_loop :: "nat \<Rightarrow> byte list \<Rightarrow> byte list" where
  "nextIP_loop 0 next = next"
| "nextIP_loop (Suc j) next =
     (let next' = next[j := next ! j + 1]
      in if next' ! j > 0 then next' else nextIP_loop j next')"

definition nextIP :: "IP \<Rightarrow> IP" where
  "nextIP ip = nextIP_loop (length ip) ip"

text \<open>
  The loop of \<open>NewDHCPServer\<close> that fills the pool. It need not end, so its value is an
  option: \<open>None\<close> when the loop runs forever.
\<close>

partial_function (option) ipPool_loop :: "IP \<Rightarrow> IP \<Rightarrow> IP \<Rightarrow> IP list \<Rightarrow> IP list option" where
  "ipPool_loop ip endIP srvIP pool =
     (if bytes_Compare (To4 ip) (To4 endIP) \<le> 0
      then ipPool_loop (nextIP ip) endIP srvIP (if \<not> Equal ip srvIP then pool @ [ip] else pool)
      else Some pool)"

declare ipPool_loop.simps [code]

datatype config_error = InvalidServerIP | InvalidSubnetMask | InvalidRouterIP | InvalidPoolRange

text \<open>
  \<open>NewDHCPServer\<close> after the parsing of its strings: an address that does not parse is nil,
  a mask that does not parse is \<open>None\<close>.
\<close>

definition NewDHCPServer ::
  "IP \<Rightarrow> IPMask option \<Rightarrow> IP \<Rightarrow> IP \<Rightarrow> IP \<Rightarrow> (config_error + DHCPServer) option" where
  "NewDHCPServer srvIP parsedMask rtrIP startIP endIP =
     (if srvIP = [] then Some (Inl InvalidServerIP)
      else case parsedMask of
        None \<Rightarrow> Some (Inl InvalidSubnetMask)
      | Some m \<Rightarrow>
          if rtrIP = [] then Some (Inl InvalidRouterIP)
          else if startIP = [] \<or> endIP = [] then Some (Inl InvalidPoolRange)
          else (case ipPool_loop startIP endIP srvIP [] of
                  None \<Rightarrow> None
                | Some pool \<Rightarrow>
                    Some (Inr \<lparr> serverIP = srvIP, subnetMask = m, routerIP = rtrIP,
                                dnsServerIPs = [IPv4 8 8 8 8, IPv4 8 8 4 4], ipPool = pool,
                                leaseDuration = 24 * 3600 * 1000000000, leases = [] \<rparr>)))"

subsection \<open>Replies\<close>

definition sendOffer :: "DHCPServer \<Rightarrow> DHCPv4 \<Rightarrow> IP \<Rightarrow> Reply" where
  "sendOffer s pkt ip =
     \<lparr> replyType = MessageTypeOffer, yourIP = Some ip, replyServerIP = serverIP s,
       optSubnetMask = Some (subnetMask s), optRouter = Some (routerIP s),
       optDNS = Some (dnsServerIPs s), optLeaseTime = Some (leaseDuration s),
       optMessage = None \<rparr>"

definition sendAck :: "DHCPServer \<Rightarrow> DHCPv4 \<Rightarrow> IP \<Rightarrow> Reply" where
  "sendAck s pkt ip =
     \<lparr> replyType = MessageTypeAck, yourIP = Some ip, replyServerIP = serverIP s,
       optSubnetMask = Some (subnetMask s), optRouter = Some (routerIP s),
       optDNS = Some (dnsServerIPs s), optLeaseTime = Some (leaseDuration s),
       optMessage = None \<rparr>"

definition sendNak :: "DHCPServer \<Rightarrow> DHCPv4 \<Rightarrow> Reply" where
  "sendNak s pkt =
     \<lparr> replyType = MessageTypeNak, yourIP = None, replyServerIP = serverIP s,
       optSubnetMask = None, optRouter = None, optDNS = None, optLeaseTime = None,
       optMessage = Some ''Requested IP not available.'' \<rparr>"

subsection \<open>Pool and lease queries\<close>

fun isIPAvailable_loop :: "(HardwareAddr \<times> Lease) list \<Rightarrow> Time \<Rightarrow> IP \<Rightarrow> bool" where
  "isIPAvailable_loop [] now ip = True"
| "isIPAvailable_loop ((k, lease) # rest) now ip =
     (if Equal (IP lease) ip \<and> After (ExpiryTime lease) now then False
      else isIPAvailable_loop rest now ip)"

definition isIPAvailable :: "DHCPServer \<Rightarrow> Time \<Rightarrow> IP \<Rightarrow> bool" where
  "isIPAvailable s now ip = isIPAvailable_loop (leases s) now ip"

fun findAvailableIP_loop :: "DHCPServer \<Rightarrow> Time \<Rightarrow> IP list \<Rightarrow> IP" where
  "findAvailableIP_loop s now [] = []"
| "findAvailableIP_loop s now (ip # rest) =
     (if isIPAvailable s now ip then ip else findAvailableIP_loop s now rest)"

definition findAvailableIP :: "DHCPServer \<Rightarrow> Time \<Rightarrow> IP" where
  "findAvailableIP s now = findAvailableIP_loop s now (ipPool s)"

fun isIPInPool_loop :: "IP list \<Rightarrow> IP \<Rightarrow> bool" where
  "isIPInPool_loop [] ip = False"
| "isIPInPool_loop (poolIP # rest) ip =
     (if Equal poolIP ip then True else isIPInPool_loop rest ip)"

definition isIPInPool :: "DHCPServer \<Rightarrow> IP \<Rightarrow> bool" where
  "isIPInPool s ip = isIPInPool_loop (ipPool s) ip"

subsection \<open>Handlers\<close>

text \<open>
  A handler returns the reply it sends, if any, and the server after the message. Where the
  Go function falls through several early returns to its last statements, these are bound
  once (\<open>allocate\<close>, \<open>assign\<close>) and used in each branch that reaches them.
\<close>

definition handleDiscover ::
  "DHCPServer \<Rightarrow> Time \<Rightarrow> DHCPv4 \<Rightarrow> HardwareAddr \<Rightarrow> Reply option \<times> DHCPServer" where
  "handleDiscover s now pkt macStr =
     (let allocate =
            (let ip = findAvailableIP s now
             in if ip = [] then (None, s) else (Some (sendOffer s pkt ip), s))
      in case map_of (leases s) macStr of
           Some lease \<Rightarrow>
             if After (ExpiryTime lease) now then (Some (sendOffer s pkt (IP lease)), s)
             else allocate
         | None \<Rightarrow> allocate)"

definition handleRequest ::
  "DHCPServer \<Rightarrow> Time \<Rightarrow> DHCPv4 \<Rightarrow> HardwareAddr \<Rightarrow> Reply option \<times> DHCPServer" where
  "handleRequest s now pkt macStr =
     (let requestedIP = RequestedIPAddress pkt;
          assign =
            (if isIPAvailable s now requestedIP
             then (Some (sendAck s pkt requestedIP),
                   s\<lparr>leases := AList.update macStr
                       \<lparr> IP = requestedIP, MAC = ClientHWAddr pkt,
                         ExpiryTime = Add now (leaseDuration s), Hostname = HostName pkt \<rparr>
                       (leases s)\<rparr>)
             else (Some (sendNak s pkt), s))
      in if \<not> isIPInPool s requestedIP then (Some (sendNak s pkt), s)
         else case map_of (leases s) macStr of
                Some lease \<Rightarrow>
                  if Equal (IP lease) requestedIP
                  then (Some (sendAck s pkt requestedIP),
                        s\<lparr>leases := AList.update macStr
                            (lease\<lparr>ExpiryTime := Add now (leaseDuration s)\<rparr>) (leases s)\<rparr>)
                  else assign
              | None \<Rightarrow> assign)"

definition handleRelease ::
  "DHCPServer \<Rightarrow> DHCPv4 \<Rightarrow> HardwareAddr \<Rightarrow> Reply option \<times> DHCPServer" where
  "handleRelease s pkt macStr =
     (case map_of (leases s) macStr of
        Some lease \<Rightarrow> (None, s\<lparr>leases := AList.delete macStr (leases s)\<rparr>)
      | None \<Rightarrow> (None, s))"

definition handleDHCPRequest :: "DHCPServer \<Rightarrow> Time \<Rightarrow> DHCPv4 \<Rightarrow> Reply option \<times> DHCPServer" where
  "handleDHCPRequest s now pkt =
     (let macStr = ClientHWAddr pkt
      in case MessageType pkt of
           MessageTypeDiscover \<Rightarrow> handleDiscover s now pkt macStr
         | MessageTypeRequest \<Rightarrow> handleRequest s now pkt macStr
         | MessageTypeRelease \<Rightarrow> handleRelease s pkt macStr
         | _ \<Rightarrow> (None, s))"

text \<open>A run: the messages handled one after the other, each at its own instant.\<close>

fun run :: "DHCPServer \<Rightarrow> (Time \<times> DHCPv4) list \<Rightarrow> DHCPServer" where
  "run s [] = s"
| "run s ((now, pkt) # rest) = run (snd (handleDHCPRequest s now pkt)) rest"

fun replies :: "DHCPServer \<Rightarrow> (Time \<times> DHCPv4) list \<Rightarrow> Reply option list" where
  "replies s [] = []"
| "replies s ((now, pkt) # rest) =
     fst (handleDHCPRequest s now pkt) # replies (snd (handleDHCPRequest s now pkt)) rest"

text \<open>
  The states the server can be in: it starts with an empty lease map (as \<open>NewDHCPServer\<close>
  returns it) and handles one message after the other, at any instants.
\<close>

inductive reachable :: "DHCPServer \<Rightarrow> bool" where
  init: "leases s = [] \<Longrightarrow> reachable s"
| step: "reachable s \<Longrightarrow> reachable (snd (handleDHCPRequest s now pkt))"

text \<open>Two distinct clients that both hold an unexpired lease on one address.\<close>

definition shared_address :: "DHCPServer \<Rightarrow> Time \<Rightarrow> HardwareAddr \<Rightarrow> HardwareAddr \<Rightarrow> bool" where
  "shared_address s now a b =
     (a \<noteq> b \<and>
      (case map_of (leases s) a of
         None \<Rightarrow> False
       | Some la \<Rightarrow>
           (case map_of (leases s) b of
              None \<Rightarrow> False
            | Some lb \<Rightarrow>
                After (ExpiryTime la) now \<and> After (ExpiryTime lb) now \<and> Equal (IP la) (IP lb))))"

text \<open>
  Mutual exclusion at an instant: no two entries of distinct clients are both unexpired and
  hold equal addresses.
\<close>

definition exclusive_set :: "(HardwareAddr \<times> Lease) set \<Rightarrow> Time \<Rightarrow> bool" where
  "exclusive_set L now =
     (\<forall>(k1, l1) \<in> L. \<forall>(k2, l2) \<in> L.
        k1 \<noteq> k2 \<and> After (ExpiryTime l1) now \<and> After (ExpiryTime l2) now
          \<longrightarrow> \<not> Equal (IP l1) (IP l2))"

definition exclusive :: "DHCPServer \<Rightarrow> Time \<Rightarrow> bool" where
  "exclusive s now = exclusive_set (set (leases s)) now"

text \<open>A REQUEST that asks for the address of the client's own lease after that lease expired.\<close>

definition renews_expired :: "DHCPServer \<Rightarrow> Time \<Rightarrow> DHCPv4 \<Rightarrow> bool" where
  "renews_expired s now pkt =
     (MessageType pkt = MessageTypeRequest \<and>
      (case map_of (leases s) (ClientHWAddr pkt) of
         None \<Rightarrow> False
       | Some l \<Rightarrow> Equal (IP l) (RequestedIPAddress pkt) \<and> \<not> After (ExpiryTime l) now))"

text \<open>
  A run whose instants do not decrease and none of whose messages renews an expired lease;
  and the instant of its last message.
\<close>

fun orderly :: "DHCPServer \<Rightarrow> Time \<Rightarrow> (Time \<times> DHCPv4) list \<Rightarrow> bool" where
  "orderly s t0 [] = True"
| "orderly s t0 ((now, pkt) # rest) =
     (t0 \<le> now \<and> \<not> renews_expired s now pkt
      \<and> orderly (snd (handleDHCPRequest s now pkt)) now rest)"

fun end_time :: "Time \<Rightarrow> (Time \<times> DHCPv4) list \<Rightarrow> Time" where
  "end_time t0 [] = t0"
| "end_time t0 ((now, pkt) # rest) = end_time now rest"

text \<open>The IPv4 address with the 32-bit value \<open>n\<close>, and the value of four bytes.\<close>

definition val4 :: "byte \<Rightarrow> byte \<Rightarrow> byte \<Rightarrow> byte \<Rightarrow> nat" where
  "val4 a b c d = ((unat a * 256 + unat b) * 256 + unat c) * 256 + unat d"

definition addr :: "nat \<Rightarrow> IP" where
  "addr n = IPv4 (of_nat (n div 16777216)) (of_nat (n div 65536)) (of_nat (n div 256)) (of_nat n)"

text \<open>Every stored lease has an address of the pool.\<close>

definition leases_in_pool :: "DHCPServer \<Rightarrow> bool" where
  "leases_in_pool s = list_all (\<lambda>(k, l). isIPInPool s (IP l)) (leases s)"

section \<open>The adversarial server (the second program)\<close>

subsection \<open>Data\<close>

type_synonym OptionCode = byte
type_synonym Options = "OptionCode \<rightharpoonup> byte list"

definition OptionSubnetMask :: OptionCode where "OptionSubnetMask = 1"
definition OptionRouter :: OptionCode where "OptionRouter = 3"
definition OptionDomainNameServer :: OptionCode where "OptionDomainNameServer = 6"
definition OptionRequestedIPAddress :: OptionCode where "OptionRequestedIPAddress = 50"
definition OptionServerIdentifier :: OptionCode where "OptionServerIdentifier = 54"

datatype dhcp4_MessageType = Discover | Offer | Request | Decline | ACK | NAK | Release | Inform

record RogueConfig =
  ServerIP :: IP
  StartIP :: IP
  EndIP :: IP
  Options :: Options
  LeaseDuration :: Duration

text \<open>The lease map is keyed by \<^verbatim>\<open>req.CHAddr().String()\<close>; as above the key is the address.\<close>

record RogueDHCPHandler =
  config :: RogueConfig
  leaseDB :: "HardwareAddr \<rightharpoonup> IP"

record Packet =
  CHAddr :: HardwareAddr
  CIAddr :: IP

text \<open>
  The reply is the tuple handed to \<^verbatim>\<open>dhcp4.ReplyPacket\<close>. The configured options go into it
  in the order the Go map yields them; the model keeps the map.
\<close>

record ReplyPacket =
  rpReq :: Packet
  rpType :: dhcp4_MessageType
  rpServerId :: IP
  rpYIAddr :: IP
  rpLeaseDuration :: Duration
  rpOptions :: Options

subsection \<open>The address helpers of the dhcp4 library\<close>

text \<open>
  \<^verbatim>\<open>dhcp4.IPRange\<close> and \<^verbatim>\<open>dhcp4.IPAdd\<close> belong to the library the program imports; they are
  written here as the library documents them, on the big-endian 32-bit value of an address.
\<close>

datatype panic = IndexOutOfRange

text \<open>\<^verbatim>\<open>binary.BigEndian.Uint32\<close> panics on fewer than four bytes.\<close>

definition Uint32 :: "byte list \<Rightarrow> panic + 32 word" where
  "Uint32 b =
     (if length b < 4 then Inl IndexOutOfRange
      else Inr (ucast (b ! 3) OR push_bit 8 (ucast (b ! 2)) OR push_bit 16 (ucast (b ! 1))
                OR push_bit 24 (ucast (b ! 0))))"

definition PutUint32 :: "32 word \<Rightarrow> byte list" where
  "PutUint32 v = [ucast (drop_bit 24 v), ucast (drop_bit 16 v), ucast (drop_bit 8 v), ucast v]"

text \<open>\<^verbatim>\<open>IPRange(start, stop)\<close>: how many addresses from start to stop, as a Go int of 64 bits.\<close>

definition IPRange :: "IP \<Rightarrow> IP \<Rightarrow> panic + int" where
  "IPRange start stop =
     (case Uint32 (To4 stop) of
        Inl e \<Rightarrow> Inl e
      | Inr hi \<Rightarrow>
          (case Uint32 (To4 start) of
             Inl e \<Rightarrow> Inl e
           | Inr lo \<Rightarrow> Inr (uint hi - uint lo + 1)))"

text \<open>\<^verbatim>\<open>IPAdd(start, add)\<close>: the 4-byte address start + add, in 32-bit arithmetic.\<close>

definition IPAdd :: "IP \<Rightarrow> int \<Rightarrow> panic + IP" where
  "IPAdd start add =
     (case Uint32 (To4 start) of
        Inl e \<Rightarrow> Inl e
      | Inr v \<Rightarrow> Inr (PutUint32 (v + word_of_int add)))"

subsection \<open>The handler\<close>

text \<open>Go's \<open>/\<close> on integers truncates towards zero: \<open>sdiv\<close>.\<close>

definition ServeDHCP ::
  "RogueDHCPHandler \<Rightarrow> Packet \<Rightarrow> dhcp4_MessageType \<Rightarrow> Options
     \<Rightarrow> panic + (ReplyPacket option \<times> RogueDHCPHandler)" where
  "ServeDHCP h req msgType options =
     (let clientMAC = CHAddr req;
          opts = Options (config h)
      in case msgType of
           Discover \<Rightarrow>
             (case IPRange (StartIP (config h)) (EndIP (config h)) of
                Inl e \<Rightarrow> Inl e
              | Inr n \<Rightarrow>
                  (case IPAdd (StartIP (config h)) (n sdiv 2) of
                     Inl e \<Rightarrow> Inl e
                   | Inr offeredIP \<Rightarrow>
                       Inr (Some \<lparr> rpReq = req, rpType = Offer, rpServerId = ServerIP (config h),
                                   rpYIAddr = offeredIP,
                                   rpLeaseDuration = LeaseDuration (config h), rpOptions = opts \<rparr>,
                            h\<lparr>leaseDB := (leaseDB h)(clientMAC \<mapsto> offeredIP)\<rparr>)))
         | Request \<Rightarrow>
             (let acknowledge =
                    (let requestedIP =
                           (case options OptionRequestedIPAddress of
                              None \<Rightarrow> CIAddr req
                            | Some v \<Rightarrow> v);
                         ackIP =
                           (case leaseDB h clientMAC of
                              Some ip \<Rightarrow> ip
                            | None \<Rightarrow> requestedIP)
                     in Inr (Some \<lparr> rpReq = req, rpType = ACK, rpServerId = ServerIP (config h),
                                    rpYIAddr = ackIP,
                                    rpLeaseDuration = LeaseDuration (config h),
                                    rpOptions = opts \<rparr>,
                             h))
              in case options OptionServerIdentifier of
                   Some serverIdent \<Rightarrow>
                     if \<not> Equal serverIdent (ServerIP (config h)) then Inr (None, h)
                     else acknowledge
                 | None \<Rightarrow> acknowledge)
         | _ \<Rightarrow> Inr (None, h))"

text \<open>The address a result of the handler carries, if it carries one.\<close>

definition replyAddress :: "panic + (ReplyPacket option \<times> RogueDHCPHandler) \<Rightarrow> IP option" where
  "replyAddress r =
     (case r of
        Inl e \<Rightarrow> None
      | Inr (rep, h) \<Rightarrow> (case rep of None \<Rightarrow> None | Some p \<Rightarrow> Some (rpYIAddr p)))"

section \<open>Concrete servers, clients and messages\<close>

definition day :: Duration where
  "day = 24 * 3600 * 1000000000"

text \<open>The pool of the scenario: 10.0.0.100 to 10.0.0.102, the server at 10.0.0.1.\<close>

definition demoServer :: DHCPServer where
  "demoServer =
     \<lparr> serverIP = IPv4 10 0 0 1, subnetMask = [255, 255, 255, 0], routerIP = IPv4 10 0 0 1,
       dnsServerIPs = [IPv4 8 8 8 8, IPv4 8 8 4 4],
       ipPool = [IPv4 10 0 0 100, IPv4 10 0 0 101, IPv4 10 0 0 102],
       leaseDuration = 24 * 3600 * 1000000000, leases = [] \<rparr>"

definition clientA :: HardwareAddr where "clientA = [2, 0, 0, 0, 0, 0x0a]"
definition clientB :: HardwareAddr where "clientB = [2, 0, 0, 0, 0, 0x0b]"

definition discover :: "HardwareAddr \<Rightarrow> DHCPv4" where
  "discover mac =
     \<lparr> ClientHWAddr = mac, MessageType = MessageTypeDiscover, RequestedIPAddress = [],
       ServerIdentifier = [], HostName = [] \<rparr>"

definition request :: "HardwareAddr \<Rightarrow> IP \<Rightarrow> DHCPv4" where
  "request mac ip =
     \<lparr> ClientHWAddr = mac, MessageType = MessageTypeRequest, RequestedIPAddress = ip,
       ServerIdentifier = [], HostName = [] \<rparr>"

definition release :: "HardwareAddr \<Rightarrow> DHCPv4" where
  "release mac =
     \<lparr> ClientHWAddr = mac, MessageType = MessageTypeRelease, RequestedIPAddress = [],
       ServerIdentifier = [], HostName = [] \<rparr>"

definition clientC :: HardwareAddr where "clientC = [2, 0, 0, 0, 0, 0x0c]"
definition clientD :: HardwareAddr where "clientD = [2, 0, 0, 0, 0, 0x0d]"

text \<open>
  A run in which client A lets its lease on 10.0.0.100 expire, client B obtains the address,
  and client A then asks for it again.
\<close>

definition takeover :: "(Time \<times> DHCPv4) list" where
  "takeover =
     [(0, discover clientA), (1, request clientA [10, 0, 0, 100]),
      (day + 2, discover clientB), (day + 3, request clientB [10, 0, 0, 100]),
      (day + 4, request clientA [10, 0, 0, 100])]"

text \<open>The configuration the second program starts with: 172.16.1.150 to 172.16.1.200.\<close>

definition rogueConfig :: RogueConfig where
  "rogueConfig =
     \<lparr> ServerIP = IPv4 172 16 1 100, StartIP = IPv4 172 16 1 150, EndIP = IPv4 172 16 1 200,
       Options = [OptionRouter \<mapsto> IPv4 172 16 1 100,
                  OptionDomainNameServer \<mapsto> IPv4 172 16 1 100,
                  OptionSubnetMask \<mapsto> [255, 255, 255, 0]],
       LeaseDuration = 24 * 3600 * 1000000000 \<rparr>"

definition rogueHandler :: RogueDHCPHandler where
  "rogueHandler = \<lparr> config = rogueConfig, leaseDB = Map.empty \<rparr>"

definition rogueRequest :: "HardwareAddr \<Rightarrow> Packet" where
  "rogueRequest mac = \<lparr> CHAddr = mac, CIAddr = [0, 0, 0, 0] \<rparr>"

section \<open>Properties of the cooperative server\<close>

subsection \<open>Queries and the reachable states\<close>

lemma isIPAvailable_loop_iff:
  "isIPAvailable_loop ls now ip = (\<forall>(k, l) \<in> set ls. \<not> (Equal (IP l) ip \<and> After (ExpiryTime l) now))"
  by (induction ls now ip rule: isIPAvailable_loop.induct) auto

lemma isIPInPool_loop_iff: "isIPInPool_loop pool ip = (\<exists>p \<in> set pool. Equal p ip)"
  by (induction pool) auto

lemma take_drop_eq: "take n a = take n c \<Longrightarrow> drop n a = drop n c \<Longrightarrow> a = c"
  by (metis append_take_drop_id)

lemma Equal_trans: "Equal a b \<Longrightarrow> Equal b c \<Longrightarrow> Equal a c"
  by (auto simp: Equal_def split: if_splits intro: take_drop_eq[of 12])

lemma Equal_sym: "Equal a b \<Longrightarrow> Equal b a"
  by (auto simp: Equal_def split: if_splits)

lemma list_all_update: "P (k, v) \<Longrightarrow> list_all P al \<Longrightarrow> list_all P (AList.update k v al)"
  by (induction al) auto

lemma list_all_delete: "list_all P al \<Longrightarrow> list_all P (AList.delete k al)"
  by (induction al) auto

lemma handleRequest_pool: "ipPool (snd (handleRequest s now pkt mac)) = ipPool s"
  by (simp add: handleRequest_def Let_def split: option.splits)

lemma handleDHCPRequest_pool: "ipPool (snd (handleDHCPRequest s now pkt)) = ipPool s"
  by (simp add: handleDHCPRequest_def handleRequest_pool handleDiscover_def handleRelease_def Let_def split: MessageType.splits option.splits)

lemma handleRequest_inv:
  assumes "leases_in_pool s"
  shows "leases_in_pool (snd (handleRequest s now pkt mac))"
proof -
  have held: "isIPInPool s (IP l)" if "map_of (leases s) mac = Some l" for l
    using assms map_of_SomeD[OF that] by (auto simp: leases_in_pool_def list_all_iff)
  show ?thesis
    using assms held
    by (auto simp: handleRequest_def Let_def leases_in_pool_def isIPInPool_def
        intro!: list_all_update split: option.splits)
qed

lemma handleDHCPRequest_inv:
  assumes "leases_in_pool s"
  shows "leases_in_pool (snd (handleDHCPRequest s now pkt))"
proof (cases "MessageType pkt")
  case MessageTypeRequest
  then show ?thesis using handleRequest_inv[OF assms] by (simp add: handleDHCPRequest_def)
next
  case MessageTypeRelease
  then show ?thesis using assms
    by (auto simp: handleDHCPRequest_def handleRelease_def leases_in_pool_def isIPInPool_def Let_def
        intro: list_all_delete split: option.splits)
qed (use assms in \<open>auto simp: handleDHCPRequest_def handleDiscover_def Let_def split: option.splits\<close>)

lemma reachable_leases_in_pool: "reachable s \<Longrightarrow> leases_in_pool s"
  by (induction rule: reachable.induct) (auto simp: leases_in_pool_def intro: handleDHCPRequest_inv[unfolded leases_in_pool_def])

lemma reachable_run: "reachable s \<Longrightarrow> reachable (run s msgs)"
proof (induction msgs arbitrary: s)
  case Nil
  then show ?case by simp
next
  case (Cons m msgs)
  obtain now pkt where m: "m = (now, pkt)" by (cases m)
  have "reachable (snd (handleDHCPRequest s now pkt))"
    using Cons.prems by (rule reachable.step)
  then show ?case using Cons.IH m by simp
qed

text \<open>A message that is neither a REQUEST nor a RELEASE leaves the server as it is.\<close>

lemma handleDHCPRequest_quiet:
  "MessageType p \<noteq> MessageTypeRequest \<Longrightarrow> MessageType p \<noteq> MessageTypeRelease \<Longrightarrow>
     snd (handleDHCPRequest s t p) = s"
  by (cases "MessageType p")
     (simp_all add: handleDHCPRequest_def handleDiscover_def Let_def split: option.splits)

lemma run_quiet:
  "list_all (\<lambda>(t, p). MessageType p \<noteq> MessageTypeRequest \<and> MessageType p \<noteq> MessageTypeRelease) msgs
     \<Longrightarrow> run s msgs = s"
  by (induction msgs) (auto simp: handleDHCPRequest_quiet)

lemma set_update_distinct:
  "distinct (map fst al) \<Longrightarrow>
     set (AList.update k v al) = insert (k, v) {(k', v') \<in> set al. k' \<noteq> k}"
  by (induction al) (auto simp: rev_image_eqI)

lemma handleDHCPRequest_distinct:
  "distinct (map fst (leases s)) \<Longrightarrow> distinct (map fst (leases (snd (handleDHCPRequest s now pkt))))"
  by (cases "MessageType pkt")
     (auto simp: handleDHCPRequest_def handleDiscover_def handleRequest_def handleRelease_def
        Let_def distinct_update distinct_delete split: option.splits)

lemma reachable_distinct: "reachable s \<Longrightarrow> distinct (map fst (leases s))"
  by (induction rule: reachable.induct) (auto intro: handleDHCPRequest_distinct)

subsection \<open>Renewal\<close>

text \<open>
  C5. In every state the server can reach, a REQUEST whose requested address is equal to the
  address of the lease its client holds, whether that lease has expired or not, is answered
  with an ACK for that address; the client's lease keeps its address and gets the expiry
  \<open>now + leaseDuration\<close>; the leases of all other clients stay as they are.
\<close>

theorem renewal_extends_expiry:
  assumes "reachable s"
    and "MessageType pkt = MessageTypeRequest"
    and "map_of (leases s) (ClientHWAddr pkt) = Some lease"
    and "Equal (IP lease) (RequestedIPAddress pkt)"
  shows "fst (handleDHCPRequest s now pkt) = Some (sendAck s pkt (RequestedIPAddress pkt))
       \<and> replyType (sendAck s pkt (RequestedIPAddress pkt)) = MessageTypeAck
       \<and> map_of (leases (snd (handleDHCPRequest s now pkt))) (ClientHWAddr pkt)
           = Some (lease\<lparr>ExpiryTime := now + leaseDuration s\<rparr>)
       \<and> IP (lease\<lparr>ExpiryTime := now + leaseDuration s\<rparr>) = IP lease
       \<and> ExpiryTime (lease\<lparr>ExpiryTime := now + leaseDuration s\<rparr>) = now + leaseDuration s
       \<and> (\<forall>k. k \<noteq> ClientHWAddr pkt \<longrightarrow>
             map_of (leases (snd (handleDHCPRequest s now pkt))) k = map_of (leases s) k)"
proof -
  have "leases_in_pool s" using assms(1) by (rule reachable_leases_in_pool)
  then have "isIPInPool s (IP lease)"
    using map_of_SomeD[OF assms(3)] by (auto simp: leases_in_pool_def list_all_iff)
  then obtain p where p: "p \<in> set (ipPool s)" "Equal p (IP lease)"
    by (auto simp: isIPInPool_def isIPInPool_loop_iff)
  have "Equal p (RequestedIPAddress pkt)" using p(2) assms(4) by (rule Equal_trans)
  then have inpool: "isIPInPool s (RequestedIPAddress pkt)"
    using p(1) by (auto simp: isIPInPool_def isIPInPool_loop_iff)
  have eq: "handleDHCPRequest s now pkt =
      (Some (sendAck s pkt (RequestedIPAddress pkt)),
       s\<lparr>leases := AList.update (ClientHWAddr pkt)
             (lease\<lparr>ExpiryTime := now + leaseDuration s\<rparr>) (leases s)\<rparr>)"
    using assms(2,3,4) inpool by (simp add: handleDHCPRequest_def handleRequest_def Let_def Add_def)
  show ?thesis
    by (simp add: eq update_conv' sendAck_def)
qed

text \<open>A lease that expired at \<open>day\<close> is renewed at \<open>2 * day\<close>, up to \<open>3 * day\<close>.\<close>

theorem renewal_extends_expiry_witness:
  "map_of (leases (run demoServer [(0, request clientA [10, 0, 0, 100])])) clientA
     = Some \<lparr> IP = [10, 0, 0, 100], MAC = clientA, ExpiryTime = day, Hostname = [] \<rparr>
   \<and> fst (handleDHCPRequest (run demoServer [(0, request clientA [10, 0, 0, 100])]) (2 * day)
           (request clientA [10, 0, 0, 100]))
     = Some (sendAck demoServer (request clientA [10, 0, 0, 100]) [10, 0, 0, 100])
   \<and> map_of (leases (snd (handleDHCPRequest (run demoServer [(0, request clientA [10, 0, 0, 100])])
                             (2 * day) (request clientA [10, 0, 0, 100])))) clientA
     = Some \<lparr> IP = [10, 0, 0, 100], MAC = clientA, ExpiryTime = 3 * day, Hostname = [] \<rparr>"
proof -
  let ?tr = "[(0, request clientA [10, 0, 0, 100])]"
  let ?pkt = "request clientA [10, 0, 0, 100]"
  let ?l = "\<lparr> IP = [10, 0, 0, 100], MAC = clientA, ExpiryTime = day, Hostname = [] \<rparr>"
  have r: "reachable (run demoServer ?tr)"
    by (rule reachable_run, rule reachable.init) (simp add: demoServer_def)
  have t: "MessageType ?pkt = MessageTypeRequest" by (simp add: request_def)
  have l: "map_of (leases (run demoServer ?tr)) (ClientHWAddr ?pkt) = Some ?l" by code_simp
  have e: "Equal (IP ?l) (RequestedIPAddress ?pkt)" by code_simp
  have d: "leaseDuration (run demoServer ?tr) = day" by code_simp
  have a: "sendAck (run demoServer ?tr) ?pkt [10, 0, 0, 100] = sendAck demoServer ?pkt [10, 0, 0, 100]" by code_simp
  have c: "ClientHWAddr ?pkt = clientA" "RequestedIPAddress ?pkt = [10, 0, 0, 100]"
    by (simp_all add: request_def)
  from renewal_extends_expiry[OF r t l e, of "2 * day"] l show ?thesis
    by (simp add: d a c del: run.simps)
qed

subsection \<open>Rejection\<close>

text \<open>
  C6. A REQUEST whose requested address is equal to no address of the pool, or is held
  unexpired by another client while the requesting client holds no lease on it, is answered
  with a NAK, and the server after the message is the server before it: no lease is added,
  changed or removed.
\<close>

theorem rejection_leaves_table:
  assumes "MessageType pkt = MessageTypeRequest"
    and "(\<forall>p \<in> set (ipPool s). \<not> Equal p (RequestedIPAddress pkt))
         \<or> ((\<exists>k l. (k, l) \<in> set (leases s) \<and> k \<noteq> ClientHWAddr pkt
                  \<and> Equal (IP l) (RequestedIPAddress pkt) \<and> ExpiryTime l > now)
            \<and> \<not> (\<exists>l. map_of (leases s) (ClientHWAddr pkt) = Some l
                      \<and> Equal (IP l) (RequestedIPAddress pkt)))"
  shows "handleDHCPRequest s now pkt = (Some (sendNak s pkt), s)
       \<and> replyType (sendNak s pkt) = MessageTypeNak"
proof -
  have "handleRequest s now pkt (ClientHWAddr pkt) = (Some (sendNak s pkt), s)"
    using assms(2)
  proof
    assume "\<forall>p \<in> set (ipPool s). \<not> Equal p (RequestedIPAddress pkt)"
    then have "\<not> isIPInPool s (RequestedIPAddress pkt)"
      by (simp add: isIPInPool_def isIPInPool_loop_iff)
    then show ?thesis by (simp add: handleRequest_def Let_def)
  next
    assume h: "(\<exists>k l. (k, l) \<in> set (leases s) \<and> k \<noteq> ClientHWAddr pkt
                  \<and> Equal (IP l) (RequestedIPAddress pkt) \<and> ExpiryTime l > now)
            \<and> \<not> (\<exists>l. map_of (leases s) (ClientHWAddr pkt) = Some l
                      \<and> Equal (IP l) (RequestedIPAddress pkt))"
    then have "\<not> isIPAvailable s now (RequestedIPAddress pkt)"
      by (auto simp: isIPAvailable_def isIPAvailable_loop_iff After_def)
    then show ?thesis using h
      by (auto simp: handleRequest_def Let_def split: option.splits)
  qed
  then show ?thesis using assms(1) by (simp add: handleDHCPRequest_def sendNak_def)
qed

text \<open>Once for an address outside the pool, once for an address another client holds.\<close>

theorem rejection_leaves_table_witness:
  "handleDHCPRequest demoServer 0 (request clientA [10, 0, 0, 7])
     = (Some (sendNak demoServer (request clientA [10, 0, 0, 7])), demoServer)
   \<and> handleDHCPRequest (run demoServer [(0, request clientA [10, 0, 0, 100])]) 5
        (request clientB [10, 0, 0, 100])
     = (Some (sendNak (run demoServer [(0, request clientA [10, 0, 0, 100])])
                (request clientB [10, 0, 0, 100])),
        run demoServer [(0, request clientA [10, 0, 0, 100])])"
proof -
  let ?s = "run demoServer [(0, request clientA [10, 0, 0, 100])]"
  let ?l = "\<lparr> IP = [10, 0, 0, 100], MAC = clientA, ExpiryTime = day, Hostname = [] \<rparr>"
  have t: "\<And>m ip. MessageType (request m ip) = MessageTypeRequest" by (simp add: request_def)
  have out: "\<forall>p \<in> set (ipPool demoServer). \<not> Equal p (RequestedIPAddress (request clientA [10, 0, 0, 7]))"
    by code_simp
  have ls: "leases ?s = [(clientA, ?l)]" by code_simp
  have other: "(\<exists>k l. (k, l) \<in> set (leases ?s) \<and> k \<noteq> ClientHWAddr (request clientB [10, 0, 0, 100])
                  \<and> Equal (IP l) (RequestedIPAddress (request clientB [10, 0, 0, 100])) \<and> ExpiryTime l > 5)
            \<and> \<not> (\<exists>l. map_of (leases ?s) (ClientHWAddr (request clientB [10, 0, 0, 100])) = Some l
                      \<and> Equal (IP l) (RequestedIPAddress (request clientB [10, 0, 0, 100])))"
    unfolding ls by (simp add: request_def clientA_def clientB_def Equal_def day_def)
  show ?thesis
    using rejection_leaves_table[OF t disjI1[OF out], of 0]
          rejection_leaves_table[OF t disjI2[OF other]]
    by simp
qed

subsection \<open>The allocator\<close>

lemma findAvailableIP_loop_find:
  "findAvailableIP_loop s now pool = (case find (isIPAvailable s now) pool of None \<Rightarrow> [] | Some ip \<Rightarrow> ip)"
  by (induction pool) auto

subsection \<open>Mutual exclusion\<close>

text \<open>
  C1. Mutual exclusion of unexpired leases does not hold. The run \<open>takeover\<close> starts from the
  empty lease map: client A is offered and acknowledged 10.0.0.100; the lease runs out; client
  B is offered and acknowledged the same address, now free; client A asks for 10.0.0.100 once
  more and, since \<open>handleRequest\<close> renews a held lease without looking at its expiry or at
  the other leases, is acknowledged too. At that instant A and B both hold an unexpired lease
  on 10.0.0.100.
\<close>

theorem renewed_expired_lease_shares_address:
  "leases demoServer = []
   \<and> map (map_option (\<lambda>r. (replyType r, yourIP r))) (replies demoServer takeover)
     = [Some (MessageTypeOffer, Some (IPv4 10 0 0 100)), Some (MessageTypeAck, Some [10, 0, 0, 100]),
        Some (MessageTypeOffer, Some (IPv4 10 0 0 100)), Some (MessageTypeAck, Some [10, 0, 0, 100]),
        Some (MessageTypeAck, Some [10, 0, 0, 100])]
   \<and> map_of (leases (run demoServer takeover)) clientA
     = Some \<lparr> IP = [10, 0, 0, 100], MAC = clientA, ExpiryTime = 2 * day + 4, Hostname = [] \<rparr>
   \<and> map_of (leases (run demoServer takeover)) clientB
     = Some \<lparr> IP = [10, 0, 0, 100], MAC = clientB, ExpiryTime = 2 * day + 3, Hostname = [] \<rparr>
   \<and> shared_address (run demoServer takeover) (day + 4) clientA clientB"
  by code_simp

text \<open>
  What does hold: a message keeps mutual exclusion at its instant unless it renews an expired
  lease, so a run from the empty lease map without such a renewal ends in a state where no two
  clients share an address. The renewal of an expired lease is the only way to break it.
\<close>

lemma exclusive_set_mono: "exclusive_set L now \<Longrightarrow> L' \<subseteq> L \<Longrightarrow> exclusive_set L' now"
  unfolding exclusive_set_def by blast

lemma exclusive_set_insert:
  assumes "exclusive_set L now"
    and "\<And>k v. (k, v) \<in> L \<Longrightarrow> k \<noteq> mac \<Longrightarrow> After (ExpiryTime v) now \<Longrightarrow>
           After (ExpiryTime l') now \<Longrightarrow> \<not> Equal (IP l') (IP v) \<and> \<not> Equal (IP v) (IP l')"
  shows "exclusive_set (insert (mac, l') {(k, v) \<in> L. k \<noteq> mac}) now"
  unfolding exclusive_set_def
proof (intro ballI, clarify)
  fix k1 l1 k2 l2
  assume 1: "(k1, l1) \<in> insert (mac, l') {(k, v) \<in> L. k \<noteq> mac}"
    and 2: "(k2, l2) \<in> insert (mac, l') {(k, v) \<in> L. k \<noteq> mac}"
    and ne: "k1 \<noteq> k2" and a1: "After (ExpiryTime l1) now" and a2: "After (ExpiryTime l2) now"
    and eq: "Equal (IP l1) (IP l2)"
  consider "k1 = mac" "l1 = l'" "(k2, l2) \<in> L" "k2 \<noteq> mac"
    | "k2 = mac" "l2 = l'" "(k1, l1) \<in> L" "k1 \<noteq> mac"
    | "(k1, l1) \<in> L" "(k2, l2) \<in> L"
    using 1 2 ne by auto
  then show False
  proof cases
    case 1
    then show ?thesis using assms(2)[of k2 l2] a1 a2 eq by simp
  next
    case 2
    then show ?thesis using assms(2)[of k1 l1] a1 a2 eq by simp
  next
    case 3
    then show ?thesis using assms(1) ne a1 a2 eq unfolding exclusive_set_def by blast
  qed
qed

lemma exclusive_setD:
  "exclusive_set L now \<Longrightarrow> (k1, l1) \<in> L \<Longrightarrow> (k2, l2) \<in> L \<Longrightarrow> k1 \<noteq> k2 \<Longrightarrow>
     After (ExpiryTime l1) now \<Longrightarrow> After (ExpiryTime l2) now \<Longrightarrow> \<not> Equal (IP l1) (IP l2)"
  unfolding exclusive_set_def by blast

lemma exclusive_later: "exclusive s now \<Longrightarrow> now \<le> now' \<Longrightarrow> exclusive s now'"
  unfolding exclusive_def exclusive_set_def After_def by fastforce

lemma exclusive_step:
  assumes d: "distinct (map fst (leases s))"
    and e: "exclusive s now"
    and n: "\<not> renews_expired s now pkt"
  shows "exclusive (snd (handleDHCPRequest s now pkt)) now"
proof (cases "MessageType pkt")
  case MessageTypeRequest
  let ?mac = "ClientHWAddr pkt" and ?req = "RequestedIPAddress pkt"
  note e' = e[unfolded exclusive_def]
  show ?thesis
  proof (cases "isIPInPool s ?req")
    case False
    then show ?thesis using e MessageTypeRequest
      by (simp add: handleDHCPRequest_def handleRequest_def Let_def)
  next
    case inpool: True
    show ?thesis
    proof (cases "\<exists>l. map_of (leases s) ?mac = Some l \<and> Equal (IP l) ?req")
      case True
      then obtain l where l: "map_of (leases s) ?mac = Some l" "Equal (IP l) ?req" by blast
      then have live: "After (ExpiryTime l) now"
        using n MessageTypeRequest by (simp add: renews_expired_def)
      have mem: "(?mac, l) \<in> set (leases s)" using l(1) by (rule map_of_SomeD)
      let ?l' = "l\<lparr>ExpiryTime := Add now (leaseDuration s)\<rparr>"
      have eq: "leases (snd (handleDHCPRequest s now pkt)) = AList.update ?mac ?l' (leases s)"
        using MessageTypeRequest inpool l
        by (simp add: handleDHCPRequest_def handleRequest_def Let_def)
      have "\<not> Equal (IP ?l') (IP v) \<and> \<not> Equal (IP v) (IP ?l')"
        if "(k, v) \<in> set (leases s)" "k \<noteq> ?mac" "After (ExpiryTime v) now" for k v
      proof -
        have "\<not> Equal (IP l) (IP v)"
          using e' mem that(1) that(2)[symmetric] live that(3) by (rule exclusive_setD)
        moreover have "\<not> Equal (IP v) (IP l)"
          using e' that(1) mem that(2) that(3) live by (rule exclusive_setD)
        ultimately show ?thesis by simp
      qed
      then have "exclusive_set (insert (?mac, ?l') {(k, v) \<in> set (leases s). k \<noteq> ?mac}) now"
        by (rule exclusive_set_insert[OF e'])
      then show ?thesis
        unfolding exclusive_def eq set_update_distinct[OF d] .
    next
      case False
      show ?thesis
      proof (cases "isIPAvailable s now ?req")
        case av: True
        let ?l' = "\<lparr> IP = ?req, MAC = ?mac, ExpiryTime = Add now (leaseDuration s),
                     Hostname = HostName pkt \<rparr>"
        have eq: "leases (snd (handleDHCPRequest s now pkt)) = AList.update ?mac ?l' (leases s)"
          using MessageTypeRequest inpool False av
          by (auto simp: handleDHCPRequest_def handleRequest_def Let_def split: option.splits)
        have "\<not> Equal (IP ?l') (IP v) \<and> \<not> Equal (IP v) (IP ?l')"
          if "(k, v) \<in> set (leases s)" "After (ExpiryTime v) now" for k v
        proof -
          have "\<forall>(k, l) \<in> set (leases s). \<not> (Equal (IP l) ?req \<and> After (ExpiryTime l) now)"
            using av by (simp only: isIPAvailable_def isIPAvailable_loop_iff)
          then have "\<not> Equal (IP v) ?req" using that by blast
          moreover have "\<not> Equal ?req (IP v)"
            using calculation Equal_sym by blast
          ultimately show ?thesis by simp
        qed
        then have "exclusive_set (insert (?mac, ?l') {(k, v) \<in> set (leases s). k \<noteq> ?mac}) now"
          by (rule exclusive_set_insert[OF e'])
        then show ?thesis
          unfolding exclusive_def eq set_update_distinct[OF d] .
      next
        case nav: False
        then show ?thesis using e MessageTypeRequest inpool False
          by (auto simp: handleDHCPRequest_def handleRequest_def Let_def split: option.splits)
      qed
    qed
  qed
next
  case MessageTypeRelease
  have "set (leases (snd (handleDHCPRequest s now pkt))) \<subseteq> set (leases s)"
    using MessageTypeRelease
    by (auto simp: handleDHCPRequest_def handleRelease_def Let_def AList.delete_eq split: option.splits)
  then show ?thesis using e unfolding exclusive_def by (rule exclusive_set_mono[rotated])
qed (use e in \<open>simp_all add: handleDHCPRequest_quiet exclusive_def\<close>)

lemma exclusive_run:
  "distinct (map fst (leases s)) \<Longrightarrow> exclusive s t0 \<Longrightarrow> orderly s t0 msgs \<Longrightarrow>
     exclusive (run s msgs) (end_time t0 msgs)"
proof (induction msgs arbitrary: s t0)
  case Nil
  then show ?case by simp
next
  case (Cons m msgs)
  obtain now pkt where m: "m = (now, pkt)" by (cases m)
  let ?s = "snd (handleDHCPRequest s now pkt)"
  have o: "t0 \<le> now" "\<not> renews_expired s now pkt" "orderly ?s now msgs"
    using Cons.prems(3) m by simp_all
  have "exclusive s now" using Cons.prems(2) o(1) by (rule exclusive_later)
  then have "exclusive ?s now" using Cons.prems(1) o(2) by (intro exclusive_step)
  moreover have "distinct (map fst (leases ?s))"
    using Cons.prems(1) by (rule handleDHCPRequest_distinct)
  ultimately have "exclusive (run ?s msgs) (end_time now msgs)"
    using o(3) by (intro Cons.IH)
  then show ?case using m by simp
qed

lemma exclusive_from_empty:
  assumes "leases s = []" and "orderly s t0 msgs"
  shows "exclusive (run s msgs) (end_time t0 msgs)"
  using assms by (intro exclusive_run) (simp_all add: exclusive_def exclusive_set_def)

text \<open>
  Two clients sharing an address is the failure of mutual exclusion; and the run \<open>takeover\<close>
  is orderly up to its last message, which renews an expired lease.
\<close>

lemma shared_address_not_exclusive:
  assumes "shared_address s now a b"
  shows "\<not> exclusive s now"
proof -
  from assms obtain la lb where ab: "a \<noteq> b"
    and la: "map_of (leases s) a = Some la" and lb: "map_of (leases s) b = Some lb"
    and live: "After (ExpiryTime la) now" "After (ExpiryTime lb) now"
    and eq: "Equal (IP la) (IP lb)"
    by (auto simp: shared_address_def split: option.splits)
  have "(a, la) \<in> set (leases s)" "(b, lb) \<in> set (leases s)"
    using la lb by (auto dest: map_of_SomeD)
  then show ?thesis
    using ab live eq exclusive_setD[of "set (leases s)" now a la b lb]
    by (auto simp: exclusive_def)
qed

lemma takeover_renews_expired:
  "orderly demoServer 0 (butlast takeover)
   \<and> renews_expired (run demoServer (butlast takeover)) (day + 4) (request clientA [10, 0, 0, 100])"
  by code_simp

subsection \<open>Release\<close>

text \<open>
  A RELEASE is never answered, removes the lease of its client whatever the expiry, and leaves
  the other leases alone; afterwards an address is available exactly when no other client
  holds an unexpired lease on it.
\<close>

lemma release_removes_lease:
  assumes "MessageType pkt = MessageTypeRelease"
  shows "fst (handleDHCPRequest s now pkt) = None
       \<and> map_of (leases (snd (handleDHCPRequest s now pkt))) (ClientHWAddr pkt) = None
       \<and> (\<forall>k. k \<noteq> ClientHWAddr pkt \<longrightarrow>
             map_of (leases (snd (handleDHCPRequest s now pkt))) k = map_of (leases s) k)
       \<and> (\<forall>t ip. isIPAvailable (snd (handleDHCPRequest s now pkt)) t ip =
             (\<forall>(k, l) \<in> set (leases s). k \<noteq> ClientHWAddr pkt \<longrightarrow>
                 \<not> (Equal (IP l) ip \<and> ExpiryTime l > t)))"
proof -
  have eq: "leases (snd (handleDHCPRequest s now pkt)) = AList.delete (ClientHWAddr pkt) (leases s)"
    using assms
    by (auto simp: handleDHCPRequest_def handleRelease_def Let_def map_of_eq_None_iff
        split: option.splits)
  have r: "fst (handleDHCPRequest s now pkt) = None"
    using assms by (simp add: handleDHCPRequest_def handleRelease_def Let_def split: option.splits)
  have st: "set (AList.delete k al) = {(k', v) \<in> set al. k' \<noteq> k}" for k :: HardwareAddr and al :: "(HardwareAddr \<times> Lease) list"
    by (auto simp: AList.delete_eq)
  show ?thesis
    unfolding eq
    by (auto simp: r delete_conv' isIPAvailable_def isIPAvailable_loop_iff eq st After_def)
qed

text \<open>
  So in a state with mutual exclusion the address of an unexpired lease is available right
  after its RELEASE.
\<close>

lemma release_frees_when_exclusive:
  assumes "exclusive s now"
    and "MessageType pkt = MessageTypeRelease"
    and "map_of (leases s) (ClientHWAddr pkt) = Some l"
    and "After (ExpiryTime l) now"
  shows "isIPAvailable (snd (handleDHCPRequest s now pkt)) now (IP l)"
proof -
  have mem: "(ClientHWAddr pkt, l) \<in> set (leases s)" using assms(3) by (rule map_of_SomeD)
  have "\<not> (Equal (IP v) (IP l) \<and> ExpiryTime v > now)"
    if "(k, v) \<in> set (leases s)" "k \<noteq> ClientHWAddr pkt" for k v
  proof
    assume a: "Equal (IP v) (IP l) \<and> ExpiryTime v > now"
    then have "After (ExpiryTime v) now" by (simp add: After_def)
    with assms(1)[unfolded exclusive_def] that(1) mem that(2) have "\<not> Equal (IP v) (IP l)"
      using assms(4) by (intro exclusive_setD)
    with a show False by simp
  qed
  then show ?thesis
    using release_removes_lease[OF assms(2), of s now] by blast
qed

text \<open>
  C7. After the run \<open>takeover\<close> client A holds an unexpired lease on 10.0.0.100. Its RELEASE
  gets no reply and removes that lease, but the availability check for 10.0.0.100 still
  answers that the address is taken: client B holds it too.
\<close>

theorem release_leaves_address_taken:
  "map_of (leases (run demoServer takeover)) clientA
     = Some \<lparr> IP = [10, 0, 0, 100], MAC = clientA, ExpiryTime = 2 * day + 4, Hostname = [] \<rparr>
   \<and> fst (handleDHCPRequest (run demoServer takeover) (day + 5) (release clientA)) = None
   \<and> map_of (leases (snd (handleDHCPRequest (run demoServer takeover) (day + 5) (release clientA))))
        clientA = None
   \<and> \<not> isIPAvailable (snd (handleDHCPRequest (run demoServer takeover) (day + 5) (release clientA)))
          (day + 5) [10, 0, 0, 100]"
  by code_simp

subsection \<open>Discover\<close>

text \<open>
  A DISCOVER of a client without a lease finds 10.0.0.100 free and is answered with an OFFER of
  it, and after the message the lease map still has no lease for that client.
\<close>

theorem discover_stores_no_lease:
  "map_of (leases demoServer) clientA = None
   \<and> findAvailableIP demoServer 0 = IPv4 10 0 0 100
   \<and> fst (handleDHCPRequest demoServer 0 (discover clientA))
     = Some (sendOffer demoServer (discover clientA) (IPv4 10 0 0 100))
   \<and> map_of (leases (snd (handleDHCPRequest demoServer 0 (discover clientA)))) clientA = None"
  by code_simp

text \<open>
  C2, as the code has it. On a DISCOVER of a client that has no unexpired lease, the server
  takes the first address of the pool, in pool order, that is available. If there is one, it
  answers with an OFFER carrying that address; if there is none, it sends no reply. In both
  cases the server after the message is the server before it: no lease is stored.
\<close>

theorem discover_offers_without_storing:
  assumes "MessageType pkt = MessageTypeDiscover"
    and "\<forall>l. map_of (leases s) (ClientHWAddr pkt) = Some l \<longrightarrow> \<not> ExpiryTime l > now"
  shows "handleDHCPRequest s now pkt =
           (case find (isIPAvailable s now) (ipPool s) of
              None \<Rightarrow> (None, s)
            | Some ip \<Rightarrow> if ip = [] then (None, s) else (Some (sendOffer s pkt ip), s))
       \<and> snd (handleDHCPRequest s now pkt) = s
       \<and> (\<forall>ip. replyType (sendOffer s pkt ip) = MessageTypeOffer
                \<and> yourIP (sendOffer s pkt ip) = Some ip)"
proof -
  have 1: "handleDHCPRequest s now pkt =
           (case find (isIPAvailable s now) (ipPool s) of
              None \<Rightarrow> (None, s)
            | Some ip \<Rightarrow> if ip = [] then (None, s) else (Some (sendOffer s pkt ip), s))"
    using assms
    by (auto simp: handleDHCPRequest_def handleDiscover_def Let_def After_def findAvailableIP_def
        findAvailableIP_loop_find split: option.splits)
  have 2: "snd (handleDHCPRequest s now pkt) = s"
    unfolding 1 by (simp split: option.splits)
  show ?thesis using 1 2 by (simp add: sendOffer_def)
qed

text \<open>Once on the empty lease map, once with all three addresses of the pool taken.\<close>

theorem discover_offers_without_storing_witness:
  "handleDHCPRequest demoServer 0 (discover clientA)
     = (Some (sendOffer demoServer (discover clientA) (IPv4 10 0 0 100)), demoServer)
   \<and> handleDHCPRequest
        (run demoServer [(0, request clientB [10, 0, 0, 100]), (0, request clientC [10, 0, 0, 101]),
                         (0, request clientD [10, 0, 0, 102])]) 1 (discover clientA)
     = (None, run demoServer [(0, request clientB [10, 0, 0, 100]),
                              (0, request clientC [10, 0, 0, 101]),
                              (0, request clientD [10, 0, 0, 102])])"
proof -
  let ?full = "run demoServer [(0, request clientB [10, 0, 0, 100]),
      (0, request clientC [10, 0, 0, 101]), (0, request clientD [10, 0, 0, 102])]"
  have t: "MessageType (discover clientA) = MessageTypeDiscover" by (simp add: discover_def)
  have n0: "\<forall>l. map_of (leases demoServer) (ClientHWAddr (discover clientA)) = Some l
      \<longrightarrow> \<not> ExpiryTime l > 0"
    by (simp add: demoServer_def)
  have f0: "find (isIPAvailable demoServer 0) (ipPool demoServer) = Some (IPv4 10 0 0 100)"
    by code_simp
  have nz: "IPv4 10 0 0 100 \<noteq> []" by (simp add: IPv4_def)
  have l1: "map_of (leases ?full) (ClientHWAddr (discover clientA)) = None" by code_simp
  have n1: "\<forall>l. map_of (leases ?full) (ClientHWAddr (discover clientA)) = Some l
      \<longrightarrow> \<not> ExpiryTime l > 1"
    unfolding l1 by simp
  have f1: "find (isIPAvailable ?full 1) (ipPool ?full) = None" by code_simp
  show ?thesis
    using discover_offers_without_storing[OF t n0] discover_offers_without_storing[OF t n1]
    by (simp add: f0 f1 nz del: run.simps)
qed

text \<open>
  Two DISCOVERs of client A with no REQUEST in between: the first is offered 10.0.0.101, since
  client B holds 10.0.0.100; B's lease runs out; the second is offered 10.0.0.100. The same
  happens when B releases its lease between the two. And when the pool is exhausted, neither
  DISCOVER is answered.
\<close>

theorem discover_offers_change_counterexample:
  "map (map_option (\<lambda>r. (replyType r, yourIP r)))
     (replies demoServer
        [(0, request clientB [10, 0, 0, 100]),
         (day - 1, discover clientA), (day + 1, discover clientA)])
     = [Some (MessageTypeAck, Some [10, 0, 0, 100]),
        Some (MessageTypeOffer, Some (IPv4 10 0 0 101)),
        Some (MessageTypeOffer, Some (IPv4 10 0 0 100))]
   \<and> map (map_option (\<lambda>r. (replyType r, yourIP r)))
     (replies demoServer
        [(0, request clientB [10, 0, 0, 100]),
         (1, discover clientA), (2, release clientB), (3, discover clientA)])
     = [Some (MessageTypeAck, Some [10, 0, 0, 100]),
        Some (MessageTypeOffer, Some (IPv4 10 0 0 101)),
        None,
        Some (MessageTypeOffer, Some (IPv4 10 0 0 100))]
   \<and> replies demoServer
        [(0, request clientB [10, 0, 0, 100]), (0, request clientC [10, 0, 0, 101]),
         (0, request clientD [10, 0, 0, 102]),
         (1, discover clientA), (2, discover clientA)]
     = [Some (sendAck demoServer (request clientB [10, 0, 0, 100]) [10, 0, 0, 100]),
        Some (sendAck demoServer (request clientC [10, 0, 0, 101]) [10, 0, 0, 101]),
        Some (sendAck demoServer (request clientD [10, 0, 0, 102]) [10, 0, 0, 102]),
        None, None]"
  by code_simp

text \<open>
  C4, as the code has it. Take two DISCOVERs of one client with neither a REQUEST nor a RELEASE
  handled in between, at two instants such that no lease of the map expires from the first to
  the second. Then both get the same answer: the same OFFER with the same address, or no reply
  both times. The server after them is the server before them.
\<close>

theorem repeated_discover_same_answer:
  assumes "MessageType p1 = MessageTypeDiscover" and "MessageType p2 = MessageTypeDiscover"
    and "ClientHWAddr p1 = ClientHWAddr p2"
    and "\<forall>(t, p) \<in> set between.
           MessageType p \<noteq> MessageTypeRequest \<and> MessageType p \<noteq> MessageTypeRelease"
    and "\<forall>(k, l) \<in> set (leases s). (ExpiryTime l > t1) = (ExpiryTime l > t2)"
  shows "run s ((t1, p1) # between) = s
       \<and> fst (handleDHCPRequest (run s ((t1, p1) # between)) t2 p2)
           = fst (handleDHCPRequest s t1 p1)
       \<and> snd (handleDHCPRequest (run s ((t1, p1) # between)) t2 p2) = s"
proof -
  have q: "list_all (\<lambda>(t, p). MessageType p \<noteq> MessageTypeRequest \<and> MessageType p \<noteq> MessageTypeRelease)
      ((t1, p1) # between)"
    using assms(1,4) by (auto simp: list_all_iff)
  have st: "run s ((t1, p1) # between) = s" using q by (rule run_quiet)
  have av: "isIPAvailable s t1 = isIPAvailable s t2"
    using assms(5) by (auto simp: isIPAvailable_def isIPAvailable_loop_iff After_def fun_eq_iff)
  then have fa: "findAvailableIP s t1 = findAvailableIP s t2"
    by (simp add: findAvailableIP_def findAvailableIP_loop_find)
  have own: "After (ExpiryTime l) t1 = After (ExpiryTime l) t2"
    if "map_of (leases s) (ClientHWAddr p2) = Some l" for l
    using assms(5) map_of_SomeD[OF that] by (auto simp: After_def)
  have "fst (handleDHCPRequest s t2 p2) = fst (handleDHCPRequest s t1 p1)"
    using assms(1,2,3) own
    by (auto simp: handleDHCPRequest_def handleDiscover_def Let_def fa sendOffer_def
        split: option.splits)
  then show ?thesis
    unfolding st using handleDHCPRequest_quiet[of p2 s t2] assms(2) by simp
qed

text \<open>
  Client A asks twice while client B's lease on 10.0.0.100 is running, client C asks in
  between.
\<close>

theorem repeated_discover_same_answer_witness:
  "replies (run demoServer [(0, request clientB [10, 0, 0, 100])])
      [(5, discover clientA), (6, discover clientC), (10, discover clientA)]
    = [Some (sendOffer demoServer (discover clientA) (IPv4 10 0 0 101)),
       Some (sendOffer demoServer (discover clientC) (IPv4 10 0 0 101)),
       Some (sendOffer demoServer (discover clientA) (IPv4 10 0 0 101))]"
proof -
  define s where "s = run demoServer [(0, request clientB [10, 0, 0, 100])]"
  have t: "MessageType (discover m) = MessageTypeDiscover" for m by (simp add: discover_def)
  have b: "\<forall>(t, p) \<in> set [(6, discover clientC)].
      MessageType p \<noteq> MessageTypeRequest \<and> MessageType p \<noteq> MessageTypeRelease"
    by (simp add: discover_def)
  have ls: "leases s = [(clientB, \<lparr> IP = [10, 0, 0, 100], MAC = clientB, ExpiryTime = day, Hostname = [] \<rparr>)]"
    unfolding s_def by code_simp
  have e: "\<forall>(k, l) \<in> set (leases s). (ExpiryTime l > 5) = (ExpiryTime l > 10)"
    unfolding ls by (simp add: day_def)
  have f: "fst (handleDHCPRequest s 5 (discover clientA))
      = Some (sendOffer demoServer (discover clientA) (IPv4 10 0 0 101))"
    unfolding s_def by code_simp
  have f2: "fst (handleDHCPRequest s 6 (discover clientC))
      = Some (sendOffer demoServer (discover clientC) (IPv4 10 0 0 101))"
    unfolding s_def by code_simp
  note r = repeated_discover_same_answer[OF t t refl b e, of clientA]
  have g1: "snd (handleDHCPRequest s 5 (discover clientA)) = s"
    and g2: "snd (handleDHCPRequest s 6 (discover clientC)) = s"
    by (simp_all add: handleDHCPRequest_quiet t)
  have g3: "fst (handleDHCPRequest s 10 (discover clientA)) = fst (handleDHCPRequest s 5 (discover clientA))"
    using r by (simp add: g1 g2)
  have "replies s [(5, discover clientA), (6, discover clientC), (10, discover clientA)]
    = [Some (sendOffer demoServer (discover clientA) (IPv4 10 0 0 101)),
       Some (sendOffer demoServer (discover clientC) (IPv4 10 0 0 101)),
       Some (sendOffer demoServer (discover clientA) (IPv4 10 0 0 101))]"
    by (simp add: g1 g2 g3 f f2)
  then show ?thesis unfolding s_def .
qed

section \<open>The server identifier of a REQUEST\<close>

text \<open>
  The cooperative server answers a REQUEST that names another server: the request for
  10.0.0.100 carries the server identifier 10.0.0.2, the server is 10.0.0.1, and the reply is
  an ACK and a new lease.
\<close>

theorem other_server_request_acknowledged:
  "\<not> Equal (ServerIdentifier ((request clientA [10, 0, 0, 100])\<lparr>ServerIdentifier := [10, 0, 0, 2]\<rparr>))
           (serverIP demoServer)
   \<and> fst (handleDHCPRequest demoServer 0
            ((request clientA [10, 0, 0, 100])\<lparr>ServerIdentifier := [10, 0, 0, 2]\<rparr>))
     = Some (sendAck demoServer (request clientA [10, 0, 0, 100]) [10, 0, 0, 100])
   \<and> leases demoServer = []
   \<and> leases (snd (handleDHCPRequest demoServer 0
                    ((request clientA [10, 0, 0, 100])\<lparr>ServerIdentifier := [10, 0, 0, 2]\<rparr>)))
     = [(clientA, \<lparr> IP = [10, 0, 0, 100], MAC = clientA, ExpiryTime = day, Hostname = [] \<rparr>)]"
  by code_simp

text \<open>
  C3, as the code has it. The adversarial server sends no reply to a REQUEST whose server
  identifier is present and not equal to its own address, and keeps its lease map as it is.
  The cooperative server never reads the server identifier: what it does with a message does
  not depend on that field.
\<close>

theorem other_server_request:
  "(options OptionServerIdentifier = Some v \<and> \<not> Equal v (ServerIP (config h))
      \<longrightarrow> ServeDHCP h req Request options = Inr (None, h))
   \<and> handleDHCPRequest s now (pkt\<lparr>ServerIdentifier := sid\<rparr>) = handleDHCPRequest s now pkt"
proof -
  have o: "sendOffer s (pkt\<lparr>ServerIdentifier := sid\<rparr>) = sendOffer s pkt"
    by (rule ext) (simp add: sendOffer_def)
  have a: "sendAck s (pkt\<lparr>ServerIdentifier := sid\<rparr>) = sendAck s pkt"
    by (rule ext) (simp add: sendAck_def)
  have n: "sendNak s (pkt\<lparr>ServerIdentifier := sid\<rparr>) = sendNak s pkt"
    by (simp add: sendNak_def)
  have f: "RequestedIPAddress (pkt\<lparr>ServerIdentifier := sid\<rparr>) = RequestedIPAddress pkt"
    "ClientHWAddr (pkt\<lparr>ServerIdentifier := sid\<rparr>) = ClientHWAddr pkt"
    "HostName (pkt\<lparr>ServerIdentifier := sid\<rparr>) = HostName pkt"
    "MessageType (pkt\<lparr>ServerIdentifier := sid\<rparr>) = MessageType pkt"
    by simp_all
  have "handleDHCPRequest s now (pkt\<lparr>ServerIdentifier := sid\<rparr>) = handleDHCPRequest s now pkt"
    unfolding handleDHCPRequest_def handleDiscover_def handleRequest_def handleRelease_def o a n f
    by (rule refl)
  then show ?thesis by (simp add: ServeDHCP_def Let_def)
qed

text \<open>A REQUEST that names 172.16.1.1, sent to the adversarial server at 172.16.1.100.\<close>

theorem other_server_request_witness:
  "ServeDHCP rogueHandler (rogueRequest clientA) Request
      [OptionServerIdentifier \<mapsto> [172, 16, 1, 1], OptionRequestedIPAddress \<mapsto> [172, 16, 1, 175]]
    = Inr (None, rogueHandler)"
proof -
  let ?o = "[OptionServerIdentifier \<mapsto> [172, 16, 1, 1], OptionRequestedIPAddress \<mapsto> [172, 16, 1, 175]]"
  have a: "?o OptionServerIdentifier = Some [172, 16, 1, 1]"
    by (simp add: OptionServerIdentifier_def OptionRequestedIPAddress_def)
  have b: "\<not> Equal [172, 16, 1, 1] (ServerIP (config rogueHandler))"
    by (simp add: Equal_def rogueHandler_def rogueConfig_def IPv4_def v4InV6Prefix_def)
  show ?thesis
    using other_server_request[of ?o "[172, 16, 1, 1]" rogueHandler "rogueRequest clientA"] a b
    by blast
qed

section \<open>The pool\<close>

lemma To4_length: "To4 ip = [] \<or> length (To4 ip) = 4"
  by (simp add: To4_def)

lemma byte_not_above_255: "\<not> (255 :: byte) < x"
  using unsigned_less[of x, where 'a = nat] by (simp add: word_less_nat_alt)

lemma bytes_Compare_max4:
  assumes "xs = [] \<or> length xs = 4"
  shows "bytes_Compare xs [255, 255, 255, 255] \<le> 0"
  using assms
proof
  assume "xs = []" then show ?thesis by simp
next
  assume "length xs = 4"
  then obtain a b c d where "xs = [a, b, c, d]"
    by (auto simp: numeral_eq_Suc length_Suc_conv)
  then show ?thesis by (simp add: byte_not_above_255)
qed

lemma To4_broadcast: "To4 (IPv4 255 255 255 255) = [255, 255, 255, 255]"
  by (simp add: To4_def IPv4_def v4InV6Prefix_def isZeros_def)

lemma IPv4_not_nil: "IPv4 a b c d \<noteq> []"
  by (simp add: IPv4_def)

text \<open>With the end address 255.255.255.255 the loop condition holds for every address.\<close>

lemma ipPool_loop_broadcast_aux:
  assumes run: "ipPool_loop ip0 endIP0 srvIP0 pool0 = Some y0"
  shows "endIP0 \<noteq> IPv4 255 255 255 255"
proof (rule ipPool_loop.raw_induct
    [where P = "\<lambda>ip endIP srvIP pool y. endIP \<noteq> IPv4 255 255 255 255", OF _ run])
  fix loop ip endIP srvIP pool y
  assume IH: "\<And>ip endIP srvIP pool y.
      loop ip endIP srvIP pool = Some y \<Longrightarrow> endIP \<noteq> IPv4 255 255 255 255"
    and body: "(if bytes_Compare (To4 ip) (To4 endIP) \<le> 0
       then loop (nextIP ip) endIP srvIP (if \<not> Equal ip srvIP then pool @ [ip] else pool)
       else Some pool) = Some y"
  show "endIP \<noteq> IPv4 255 255 255 255"
  proof
    assume e: "endIP = IPv4 255 255 255 255"
    have "bytes_Compare (To4 ip) (To4 endIP) \<le> 0"
      unfolding e To4_broadcast by (rule bytes_Compare_max4) (rule To4_length)
    with body
    have "loop (nextIP ip) endIP srvIP (if \<not> Equal ip srvIP then pool @ [ip] else pool) = Some y"
      by simp
    then have "endIP \<noteq> IPv4 255 255 255 255" by (rule IH)
    with e show False by simp
  qed
qed

text \<open>
  C8. The pool is not built for every start/end pair: when the end address is 255.255.255.255,
  \<open>nextIP\<close> wraps around past it, the address after it is no IPv4 address, \<open>To4\<close> gives nil,
  which compares below every end address, and the loop of \<open>NewDHCPServer\<close> never ends. So
  \<open>NewDHCPServer\<close> returns no server at all for the range 255.255.255.254 to 255.255.255.255.
\<close>

theorem pool_ending_at_broadcast_never_built:
  "ipPool_loop startIP (IPv4 255 255 255 255) srvIP pool = None
   \<and> NewDHCPServer (IPv4 10 0 0 1) (Some [255, 255, 255, 0]) (IPv4 10 0 0 1)
         (IPv4 255 255 255 254) (IPv4 255 255 255 255) = None"
proof -
  have "ipPool_loop ip (IPv4 255 255 255 255) srv acc = None" for ip srv acc
    using ipPool_loop_broadcast_aux[of ip "IPv4 255 255 255 255" srv acc]
    by (cases "ipPool_loop ip (IPv4 255 255 255 255) srv acc") auto
  then show ?thesis
    by (simp add: NewDHCPServer_def IPv4_not_nil)
qed

text \<open>
  What does hold of the pool: a pool that is built has no address equal to the server's, and
  every address a lease ever holds is equal to an address of the pool, so never to the
  server's.
\<close>

lemma ipPool_loop_excludes_server:
  assumes run: "ipPool_loop ip0 endIP0 srvIP0 pool0 = Some y0"
  shows "list_all (\<lambda>p. \<not> Equal p srvIP0) pool0 \<longrightarrow> list_all (\<lambda>p. \<not> Equal p srvIP0) y0"
proof (rule ipPool_loop.raw_induct
    [where P = "\<lambda>ip endIP srvIP pool y.
          list_all (\<lambda>p. \<not> Equal p srvIP) pool \<longrightarrow> list_all (\<lambda>p. \<not> Equal p srvIP) y", OF _ run])
  fix loop ip endIP srvIP pool y
  assume IH: "\<And>ip endIP srvIP pool y.
      loop ip endIP srvIP pool = Some y \<Longrightarrow>
        list_all (\<lambda>p. \<not> Equal p srvIP) pool \<longrightarrow> list_all (\<lambda>p. \<not> Equal p srvIP) y"
    and body: "(if bytes_Compare (To4 ip) (To4 endIP) \<le> 0
       then loop (nextIP ip) endIP srvIP (if \<not> Equal ip srvIP then pool @ [ip] else pool)
       else Some pool) = Some y"
  show "list_all (\<lambda>p. \<not> Equal p srvIP) pool \<longrightarrow> list_all (\<lambda>p. \<not> Equal p srvIP) y"
  proof (cases "bytes_Compare (To4 ip) (To4 endIP) \<le> 0")
    case True
    with body
    have "loop (nextIP ip) endIP srvIP (if \<not> Equal ip srvIP then pool @ [ip] else pool) = Some y"
      by simp
    from IH[OF this] show ?thesis by auto
  next
    case False
    with body show ?thesis by simp
  qed
qed

lemma run_config:
  "ipPool (run s msgs) = ipPool s \<and> serverIP (run s msgs) = serverIP s"
proof (induction msgs arbitrary: s)
  case Nil
  then show ?case by simp
next
  case (Cons m msgs)
  obtain now pkt where m: "m = (now, pkt)" by (cases m)
  have "serverIP (snd (handleDHCPRequest s now pkt)) = serverIP s"
    by (simp add: handleDHCPRequest_def handleRequest_def handleDiscover_def handleRelease_def
        Let_def split: MessageType.splits option.splits)
  then show ?case using Cons.IH[of "snd (handleDHCPRequest s now pkt)"] m
    by (simp add: handleDHCPRequest_pool)
qed

lemma NewDHCPServer_pool:
  assumes "NewDHCPServer srvIP parsedMask rtrIP startIP endIP = Some (Inr s)"
  shows "ipPool_loop startIP endIP srvIP [] = Some (ipPool s) \<and> serverIP s = srvIP \<and> leases s = []"
  using assms by (auto simp: NewDHCPServer_def split: if_splits option.splits)

lemma lease_addresses_in_pool:
  assumes "NewDHCPServer srvIP parsedMask rtrIP startIP endIP = Some (Inr s)"
    and "(k, l) \<in> set (leases (run s msgs))"
  shows "(\<exists>p \<in> set (ipPool s). Equal p (IP l)) \<and> \<not> Equal (IP l) srvIP"
proof -
  note n = NewDHCPServer_pool[OF assms(1)]
  have "reachable (run s msgs)"
    using n by (intro reachable_run reachable.init) simp
  then have "leases_in_pool (run s msgs)" by (rule reachable_leases_in_pool)
  then have "isIPInPool (run s msgs) (IP l)"
    using assms(2) by (auto simp: leases_in_pool_def list_all_iff)
  then obtain p where p: "p \<in> set (ipPool s)" "Equal p (IP l)"
    by (auto simp: isIPInPool_def isIPInPool_loop_iff run_config)
  have "list_all (\<lambda>p. \<not> Equal p srvIP) (ipPool s)"
    using ipPool_loop_excludes_server[of startIP endIP srvIP "[]" "ipPool s"] n by simp
  then have "\<not> Equal p srvIP" using p(1) by (simp add: list_all_iff)
  then have "\<not> Equal (IP l) srvIP" using p(2) Equal_trans by blast
  then show ?thesis using p by blast
qed

text \<open>
  And for an IPv4 start address and an IPv4 end address other than 255.255.255.255 the pool is
  built, and it is the list of the addresses from start to end, in ascending order, without
  those equal to the server's address.
\<close>

lemma byte_255: "(255 :: byte) = - 1"
  by code_simp

lemma unat_byte_less: "unat (x :: byte) < 256"
  using unsigned_less[of x, where 'a = nat] by simp

lemma byte_succ_unat: "x \<noteq> (255 :: byte) \<Longrightarrow> unat (x + 1) = Suc (unat x)"
  by (simp add: add.commute eq_neg_iff_add_eq_0 byte_255 unatSuc)

lemma byte_succ_pos: "(0 < x + 1) = (x \<noteq> (255 :: byte))"
proof -
  have "(x + 1 = 0) = (x = - 1)" by (metis add.commute add_eq_0_iff)
  then show ?thesis by (simp add: word_greater_zero_iff byte_255)
qed

lemma nextIP_loop_numeral:
  "nextIP_loop (numeral k) nx =
     (let nx' = nx[pred_numeral k := nx ! pred_numeral k + 1]
      in if nx' ! pred_numeral k > 0 then nx' else nextIP_loop (pred_numeral k) nx')"
  by (simp add: numeral_eq_Suc)

lemma list_update_numeral: "(x # xs)[numeral k := y] = x # xs[pred_numeral k := y]"
  by (simp add: numeral_eq_Suc)

lemma nextIP_IPv4:
  "nextIP (IPv4 a b c d) =
     (if d \<noteq> 255 then IPv4 a b c (d + 1)
      else if c \<noteq> 255 then IPv4 a b (c + 1) 0
      else if b \<noteq> 255 then IPv4 a (b + 1) 0 0
      else if a \<noteq> 255 then IPv4 (a + 1) 0 0 0
      else [0, 0, 0, 0, 0, 0, 0, 0, 0, 1, 0, 0, 0, 0, 0, 0])"
  by (simp add: nextIP_def IPv4_def v4InV6Prefix_def nextIP_loop_numeral list_update_numeral
      Let_def byte_succ_pos)

lemma To4_IPv4: "To4 (IPv4 a b c d) = [a, b, c, d]"
  by (simp add: To4_def IPv4_def v4InV6Prefix_def isZeros_def)

lemma nextIP_val4:
  assumes "\<not> (a = 255 \<and> b = 255 \<and> c = 255 \<and> d = 255)"
  shows "\<exists>a' b' c' d'. nextIP (IPv4 a b c d) = IPv4 a' b' c' d'
           \<and> val4 a' b' c' d' = Suc (val4 a b c d)"
  using assms by (auto simp: nextIP_IPv4 val4_def byte_succ_unat intro!: exI)

lemma bytes_Compare_val4:
  "(bytes_Compare [a, b, c, d] [a', b', c', d'] \<le> 0) = (val4 a b c d \<le> val4 a' b' c' d')"
  using unat_byte_less[of b] unat_byte_less[of c] unat_byte_less[of d]
    unat_byte_less[of b'] unat_byte_less[of c'] unat_byte_less[of d']
  by (auto simp: val4_def word_less_nat_alt not_less word_le_nat_alt[symmetric] 
      dest!: antisym[where 'a = byte])

lemma byte_is_255: "\<not> x < 255 \<Longrightarrow> x = (255 :: byte)"
  using byte_not_above_255[of x] by auto

lemma val4_top:
  assumes "val4 255 255 255 255 \<le> val4 a b c d"
  shows "a = 255 \<and> b = 255 \<and> c = 255 \<and> d = 255"
proof -
  have "bytes_Compare [255, 255, 255, 255] [a, b, c, d] \<le> 0"
    using assms by (simp only: bytes_Compare_val4)
  then show ?thesis
    by (auto simp: byte_not_above_255 split: if_splits dest: byte_is_255)
qed

lemma addr_val4: "addr (val4 a b c d) = IPv4 a b c d"
proof -
  have 1: "val4 a b c d div 16777216 = unat a"
    using unat_byte_less[of b] unat_byte_less[of c] unat_byte_less[of d]
    by (simp add: val4_def)
  have 2: "val4 a b c d div 65536 = unat a * 256 + unat b"
    using unat_byte_less[of c] unat_byte_less[of d] by (simp add: val4_def)
  have 3: "val4 a b c d div 256 = (unat a * 256 + unat b) * 256 + unat c"
    using unat_byte_less[of d] by (simp add: val4_def)
  have z: "(256 :: byte) = 0" "(65536 :: byte) = 0" "(16777216 :: byte) = 0" by simp_all
  show ?thesis
    unfolding addr_def 1 2 3 by (simp add: val4_def z)
qed

lemma ipPool_loop_enumerates_aux:
  assumes "\<not> (a' = 255 \<and> b' = 255 \<and> c' = 255 \<and> d' = 255)"
  shows "Suc (val4 a' b' c' d') - val4 a b c d = n \<Longrightarrow>
     ipPool_loop (IPv4 a b c d) (IPv4 a' b' c' d') srvIP pool =
       Some (pool @ filter (\<lambda>p. \<not> Equal p srvIP)
                      (map addr [val4 a b c d ..< Suc (val4 a' b' c' d')]))"
proof (induction n arbitrary: a b c d pool)
  case 0
  then have gt: "\<not> val4 a b c d \<le> val4 a' b' c' d'" by linarith
  then have "[val4 a b c d ..< Suc (val4 a' b' c' d')] = []" by simp
  then show ?case
    using gt
    apply (subst ipPool_loop.simps)
    apply (simp only: To4_IPv4 bytes_Compare_val4 if_False)
    apply simp
    done
next
  case (Suc n)
  then have le: "val4 a b c d \<le> val4 a' b' c' d'" by linarith
  have "\<not> (a = 255 \<and> b = 255 \<and> c = 255 \<and> d = 255)"
    using le assms val4_top[of a' b' c' d'] by blast
  then obtain a2 b2 c2 d2 where nx: "nextIP (IPv4 a b c d) = IPv4 a2 b2 c2 d2"
    and v: "val4 a2 b2 c2 d2 = Suc (val4 a b c d)"
    using nextIP_val4 by blast
  have m: "Suc (val4 a' b' c' d') - val4 a2 b2 c2 d2 = n" using Suc.prems v by linarith
  have l: "[val4 a b c d ..< Suc (val4 a' b' c' d')]
      = val4 a b c d # [val4 a2 b2 c2 d2 ..< Suc (val4 a' b' c' d')]"
    using le v by (simp add: upt_conv_Cons)
  let ?pool = "if \<not> Equal (IPv4 a b c d) srvIP then pool @ [IPv4 a b c d] else pool"
  have "ipPool_loop (IPv4 a b c d) (IPv4 a' b' c' d') srvIP pool
      = ipPool_loop (IPv4 a2 b2 c2 d2) (IPv4 a' b' c' d') srvIP ?pool"
    by (subst ipPool_loop.simps) (simp only: To4_IPv4 bytes_Compare_val4 le if_True nx)
  also have "\<dots> = Some (?pool @ filter (\<lambda>p. \<not> Equal p srvIP)
                      (map addr [val4 a2 b2 c2 d2 ..< Suc (val4 a' b' c' d')]))"
    by (rule Suc.IH[OF m])
  also have "\<dots> = Some (pool @ filter (\<lambda>p. \<not> Equal p srvIP)
                      (map addr [val4 a b c d ..< Suc (val4 a' b' c' d')]))"
    unfolding l by (simp add: addr_val4)
  finally show ?case .
qed

lemma ipPool_loop_enumerates:
  assumes "\<not> (a' = 255 \<and> b' = 255 \<and> c' = 255 \<and> d' = 255)"
  shows "ipPool_loop (IPv4 a b c d) (IPv4 a' b' c' d') srvIP [] =
       Some (filter (\<lambda>p. \<not> Equal p srvIP)
               (map addr [val4 a b c d ..< Suc (val4 a' b' c' d')]))"
  using ipPool_loop_enumerates_aux[OF assms refl, of a b c d srvIP "[]"] by simp

text \<open>The server of the scenario is the one \<open>NewDHCPServer\<close> builds for 10.0.0.100 to 10.0.0.102.\<close>

lemma NewDHCPServer_demoServer:
  "NewDHCPServer (IPv4 10 0 0 1) (Some [255, 255, 255, 0]) (IPv4 10 0 0 1)
     (IPv4 10 0 0 100) (IPv4 10 0 0 102) = Some (Inr demoServer)"
  by code_simp

section \<open>Properties of the adversarial server\<close>

text \<open>
  C9. The address offered on DISCOVER depends on the configured start and end address only:
  two handlers with the same range give the same address to any two requests, whatever their
  lease maps, clients and options. When start and end are IPv4 addresses with the 32-bit values
  \<open>lo\<close> and \<open>hi\<close>, the reply is an OFFER of \<open>lo + (hi - lo + 1) / 2\<close>, and that address is
  recorded for the client.
\<close>

theorem every_client_offered_midpoint:
  "(StartIP (config h1) = StartIP (config h2) \<and> EndIP (config h1) = EndIP (config h2) \<longrightarrow>
      replyAddress (ServeDHCP h1 req1 Discover opts1) = replyAddress (ServeDHCP h2 req2 Discover opts2))
   \<and> (Uint32 (To4 (StartIP (config h))) = Inr lo \<and> Uint32 (To4 (EndIP (config h))) = Inr hi \<longrightarrow>
        ServeDHCP h req Discover opts =
          Inr (Some \<lparr> rpReq = req, rpType = Offer, rpServerId = ServerIP (config h),
                      rpYIAddr = PutUint32 (lo + word_of_int ((uint hi - uint lo + 1) sdiv 2)),
                      rpLeaseDuration = LeaseDuration (config h), rpOptions = Options (config h) \<rparr>,
               h\<lparr>leaseDB := (leaseDB h)(CHAddr req \<mapsto>
                     PutUint32 (lo + word_of_int ((uint hi - uint lo + 1) sdiv 2)))\<rparr>))"
  by (auto simp: ServeDHCP_def replyAddress_def IPRange_def IPAdd_def Let_def split: sum.splits)

text \<open>With the range 172.16.1.150 to 172.16.1.200 every client is offered 172.16.1.175.\<close>

theorem every_client_offered_midpoint_witness:
  "replyAddress (ServeDHCP rogueHandler (rogueRequest clientA) Discover Map.empty) = Some [172, 16, 1, 175]
   \<and> replyAddress (ServeDHCP (rogueHandler\<lparr>leaseDB := [clientA \<mapsto> [172, 16, 1, 175]]\<rparr>)
                     (rogueRequest clientB) Discover [OptionRequestedIPAddress \<mapsto> [172, 16, 1, 160]])
     = Some [172, 16, 1, 175]"
proof -
  have lo: "Uint32 (To4 (StartIP (config rogueHandler))) = Inr 0xAC100196" by code_simp
  have hi: "Uint32 (To4 (EndIP (config rogueHandler))) = Inr 0xAC1001C8" by code_simp
  have mid: "PutUint32 (0xAC100196 + word_of_int ((uint (0xAC1001C8 :: 32 word) - uint (0xAC100196 :: 32 word) + 1) sdiv 2))
      = [172, 16, 1, 175]" by code_simp
  have mid': "PutUint32 (2886730159 :: 32 word) = [172, 16, 1, 175]" by code_simp
  have a: "replyAddress (ServeDHCP rogueHandler (rogueRequest clientA) Discover Map.empty) = Some [172, 16, 1, 175]"
    using every_client_offered_midpoint[of rogueHandler rogueHandler "rogueRequest clientA" Map.empty
        "rogueRequest clientA" Map.empty rogueHandler "0xAC100196" "0xAC1001C8" "rogueRequest clientA" Map.empty]
      lo hi
    by (simp add: replyAddress_def mid mid')
  have b: "replyAddress (ServeDHCP (rogueHandler\<lparr>leaseDB := [clientA \<mapsto> [172, 16, 1, 175]]\<rparr>)
                     (rogueRequest clientB) Discover [OptionRequestedIPAddress \<mapsto> [172, 16, 1, 160]])
      = replyAddress (ServeDHCP rogueHandler (rogueRequest clientA) Discover Map.empty)"
    using every_client_offered_midpoint[of "rogueHandler\<lparr>leaseDB := [clientA \<mapsto> [172, 16, 1, 175]]\<rparr>" rogueHandler
        "rogueRequest clientB" "[OptionRequestedIPAddress \<mapsto> [172, 16, 1, 160]]" "rogueRequest clientA" Map.empty]
    by simp
  show ?thesis using a b by simp
qed

text \<open>
  C10. A REQUEST whose server identifier is absent or equal to the server's address is
  answered with an ACK. The acknowledged address is the one recorded for the client, or,
  without a record, the requested address, or, without that option, the client's own
  address field; neither the range nor any other record is consulted, and the lease map stays
  as it is. No reply of the handler is ever a NAK.
\<close>

theorem request_always_acknowledged:
  assumes "options OptionServerIdentifier = None
           \<or> (\<exists>v. options OptionServerIdentifier = Some v \<and> Equal v (ServerIP (config h)))"
  shows "ServeDHCP h req Request options =
           Inr (Some \<lparr> rpReq = req, rpType = ACK, rpServerId = ServerIP (config h),
                       rpYIAddr =
                         (case leaseDB h (CHAddr req) of
                            Some ip \<Rightarrow> ip
                          | None \<Rightarrow>
                              (case options OptionRequestedIPAddress of
                                 Some v \<Rightarrow> v
                               | None \<Rightarrow> CIAddr req)),
                       rpLeaseDuration = LeaseDuration (config h),
                       rpOptions = Options (config h) \<rparr>,
                h)
       \<and> (\<forall>h' req' mt opts r h''.
             ServeDHCP h' req' mt opts = Inr (Some r, h'') \<longrightarrow> rpType r \<noteq> NAK)"
proof -
  have nak: "rpType r \<noteq> NAK" if "ServeDHCP h' req' mt opts = Inr (Some r, h'')"
    for h' req' mt opts r h''
    using that
    by (cases mt) (auto simp: ServeDHCP_def Let_def split: sum.splits option.splits if_splits)
  have "ServeDHCP h req Request options =
           Inr (Some \<lparr> rpReq = req, rpType = ACK, rpServerId = ServerIP (config h),
                       rpYIAddr =
                         (case leaseDB h (CHAddr req) of
                            Some ip \<Rightarrow> ip
                          | None \<Rightarrow>
                              (case options OptionRequestedIPAddress of
                                 Some v \<Rightarrow> v
                               | None \<Rightarrow> CIAddr req)),
                       rpLeaseDuration = LeaseDuration (config h),
                       rpOptions = Options (config h) \<rparr>,
                h)"
    using assms by (auto simp: ServeDHCP_def Let_def split: option.splits)
  then show ?thesis using nak by blast
qed

text \<open>
  A recorded address wins over the requested one; without a record 8.8.8.8, far outside the
  range, is acknowledged; without the option the client's own address field is.
\<close>

theorem request_always_acknowledged_witness:
  "replyAddress (ServeDHCP (rogueHandler\<lparr>leaseDB := [clientA \<mapsto> [172, 16, 1, 175]]\<rparr>)
                   (rogueRequest clientA) Request
                   [OptionServerIdentifier \<mapsto> [172, 16, 1, 100],
                    OptionRequestedIPAddress \<mapsto> [172, 16, 1, 160]])
     = Some [172, 16, 1, 175]
   \<and> replyAddress (ServeDHCP rogueHandler (rogueRequest clientB) Request
                     [OptionRequestedIPAddress \<mapsto> [8, 8, 8, 8]])
     = Some [8, 8, 8, 8]
   \<and> replyAddress (ServeDHCP rogueHandler (rogueRequest clientB) Request Map.empty)
     = Some [0, 0, 0, 0]"
proof -
  let ?o1 = "[OptionServerIdentifier \<mapsto> [172, 16, 1, 100],
              OptionRequestedIPAddress \<mapsto> [172, 16, 1, 160 :: byte]]"
  let ?o2 = "[OptionRequestedIPAddress \<mapsto> [8, 8, 8, 8 :: byte]]"
  have h1: "?o1 OptionServerIdentifier = None
      \<or> (\<exists>v. ?o1 OptionServerIdentifier = Some v
             \<and> Equal v (ServerIP (config (rogueHandler\<lparr>leaseDB := [clientA \<mapsto> [172, 16, 1, 175]]\<rparr>))))"
    by (simp add: OptionServerIdentifier_def OptionRequestedIPAddress_def rogueHandler_def
        rogueConfig_def Equal_def IPv4_def v4InV6Prefix_def)
  have h2: "?o2 OptionServerIdentifier = None
      \<or> (\<exists>v. ?o2 OptionServerIdentifier = Some v \<and> Equal v (ServerIP (config rogueHandler)))"
    by (simp add: OptionServerIdentifier_def OptionRequestedIPAddress_def)
  have h3: "(Map.empty :: Options) OptionServerIdentifier = None
      \<or> (\<exists>v. (Map.empty :: Options) OptionServerIdentifier = Some v \<and> Equal v (ServerIP (config rogueHandler)))"
    by simp
  show ?thesis
    using request_always_acknowledged[of ?o1 "rogueHandler\<lparr>leaseDB := [clientA \<mapsto> [172, 16, 1, 175]]\<rparr>"
        "rogueRequest clientA", THEN conjunct1] h1
      request_always_acknowledged[of ?o2 rogueHandler "rogueRequest clientB", THEN conjunct1] h2
      request_always_acknowledged[of Map.empty rogueHandler "rogueRequest clientB", THEN conjunct1] h3
    by (simp add: replyAddress_def rogueHandler_def rogueRequest_def clientA_def clientB_def
        OptionServerIdentifier_def OptionRequestedIPAddress_def)
qed

end
